theory Spec2Isabelle
  imports Complex_Main "HOL-Library.Word"
begin

unbundle bit_operations_syntax

section \<open>The queue consumer of bt10.py\<close>

text \<open>
  The consumer \<open>run_queue_consumer\<close> drains a queue of messages \<open>(T_elapsed, data)\<close>.
  \<open>T_elapsed\<close> is a Python float (milliseconds); it is read here as an exact real number,
  so the rounding of float arithmetic is not part of the model. \<open>data\<close> is a bytearray,
  a list of 8-bit values; the values computed from it (\<open>high\<close>, \<open>low\<close>, \<open>T_packet\<close>)
  are Python integers and therefore of type \<open>int\<close>. An exception that leaves the consumer
  is a value \<open>Inl e\<close>; nothing in the consumer catches one.
\<close>

subsection \<open>Data\<close>

type_synonym byte = "8 word"

datatype error = IndexError | ZeroDivisionError | KeyError

text \<open>An entry of \<open>E_ON\<close> is the Python list \<open>[T_event, pitch, velocity]\<close>.\<close>

type_synonym pending = "real \<times> byte \<times> byte"

text \<open>The calls made on the \<open>MIDIFile\<close> object, in order, with their arguments.\<close>

datatype midi_event =
    TrackName nat real string
  | Tempo nat real int
  | Note nat byte byte real real byte
  | ControllerEvent nat byte real byte byte

text \<open>The calls made on the logger, in order.\<close>

datatype log_msg =
    Received real "byte list"
  | CannotParse nat
  | TimeError int real int
  | UnmatchedNoteOff byte real
  | DupNoteOn byte real real byte byte
  | Disconnection
  | UnmatchedNoteOn nat

record state =
  T_cycle0 :: real
  E_ON :: "pending list"
  midi_file :: "midi_event list"
  midi_out :: "byte list list"
  port_open :: bool
  logged :: "log_msg list"
  written :: "midi_event list option"

subsection \<open>Python primitives\<close>

definition bind_err :: "error + 'a \<Rightarrow> ('a \<Rightarrow> error + 'b) \<Rightarrow> error + 'b" where
  "bind_err m f = (case m of Inl e \<Rightarrow> Inl e | Inr x \<Rightarrow> f x)"

text \<open>\<open>data[i]\<close> for an index that is never negative here.\<close>

definition getitem :: "byte list \<Rightarrow> nat \<Rightarrow> error + byte" where
  "getitem data i = (if i < length data then Inr (data ! i) else Inl IndexError)"

text \<open>\<open>x // 8192\<close> and \<open>x % 8192\<close> on floats: the floor of the quotient and what is left.\<close>

definition floordiv :: "real \<Rightarrow> real \<Rightarrow> int" where
  "floordiv x y = \<lfloor>x / y\<rfloor>"

definition pymod :: "real \<Rightarrow> real \<Rightarrow> real" where
  "pymod x y = x - y * of_int \<lfloor>x / y\<rfloor>"

text \<open>\<open>range(a, stop, 4)\<close>.\<close>

function range4 :: "nat \<Rightarrow> nat \<Rightarrow> nat list" where
  "range4 a stop = (if a < stop then a # range4 (a + 4) stop else [])"
  by pat_completeness auto
termination
  by (relation "measure (\<lambda>(a, stop). stop - a)") auto

declare range4.simps [simp del]

text \<open>\<open>quarter()\<close>: \<open>1000.0 * 60 / bpm\<close>, with the global \<open>bpm\<close> as a parameter.\<close>

definition quarter :: "int \<Rightarrow> error + real" where
  "quarter bpm = (if bpm = 0 then Inl ZeroDivisionError else Inr (1000 * 60 / real_of_int bpm))"

text \<open>\<open>E_ON.pop(i)\<close> for an index inside the list.\<close>

definition pop :: "'a list \<Rightarrow> nat \<Rightarrow> 'a list" where
  "pop xs i = take i xs @ drop (Suc i) xs"

subsection \<open>The packet-local clock (lines 102 to 106)\<close>

definition clock_step :: "int \<Rightarrow> int \<Rightarrow> int \<Rightarrow> int \<times> int" where
  "clock_step high low0 low =
     (let high' = (if low < low0 then high + 1 else high)
      in (high', push_bit 7 high' OR low))"

subsection \<open>The time correction (lines 107 to 121)\<close>

text \<open>
  The variables \<open>N\<close> and \<open>T_cycle0\<close> go in and come out; the third component is
  \<open>T_event\<close>, the fourth what the debug logger is given.
\<close>

definition unwrap :: "int \<Rightarrow> real \<Rightarrow> real \<Rightarrow> int \<Rightarrow> int \<times> real \<times> real \<times> log_msg list" where
  "unwrap N c T_elapsed T_packet =
     (let c' = (if c = 0 then T_elapsed - real_of_int T_packet else c);
          N' = (if c = 0 then N else floordiv (T_elapsed - c) 8192);
          DT = pymod (T_elapsed - c') 8192;
          err = (\<bar>DT - real_of_int T_packet\<bar> > 4096);
          M = (if err then (if real_of_int T_packet > DT then N' - 1 else N' + 1) else N')
      in (N', c', c' + 8192 * real_of_int M + real_of_int T_packet,
          if err then [TimeError N' DT T_packet] else []))"

subsection \<open>The three kinds of event (lines 129 to 154)\<close>

text \<open>The index of the first entry of \<open>E_ON\<close> whose pitch is \<open>p\<close>.\<close>

fun find_note :: "byte \<Rightarrow> pending list \<Rightarrow> nat option" where
  "find_note p [] = None"
| "find_note p (ev # evs) =
     (if fst (snd ev) = p then Some 0 else map_option Suc (find_note p evs))"

definition note_off :: "int \<Rightarrow> byte list \<Rightarrow> nat \<Rightarrow> real \<Rightarrow> state \<Rightarrow> error + state" where
  "note_off bpm data a T_event s =
     bind_err (getitem data (a + 2)) (\<lambda>d2.
       case find_note d2 (E_ON s) of
         None \<Rightarrow> Inr (s\<lparr>logged := logged s @ [UnmatchedNoteOff d2 T_event]\<rparr>)
       | Some i \<Rightarrow>
           bind_err (getitem data (a + 3)) (\<lambda>d3.
           bind_err (getitem data (a + 1)) (\<lambda>d1.
           bind_err (quarter bpm) (\<lambda>q.
             let ev = E_ON s ! i in
             Inr (s\<lparr>midi_out := midi_out s @ [ [0x80, d2, d3] ],
                    midi_file := midi_file s @
                      [Note 0 (d1 AND 0x0f) (fst (snd ev)) (fst ev / q)
                         ((T_event - fst ev) / q) (snd (snd ev))],
                    E_ON := pop (E_ON s) i\<rparr>)))))"

definition note_on :: "byte list \<Rightarrow> nat \<Rightarrow> real \<Rightarrow> state \<Rightarrow> error + state" where
  "note_on data a T_event s =
     bind_err (getitem data (a + 2)) (\<lambda>d2.
     bind_err (getitem data (a + 3)) (\<lambda>d3.
       let dups = filter (\<lambda>ee. fst (snd ee) = d2) (E_ON s) in
       if length dups = 0
       then Inr (s\<lparr>midi_out := midi_out s @ [ [0x90, d2, d3] ],
                   E_ON := E_ON s @ [(T_event, d2, d3)]\<rparr>)
       else Inr (s\<lparr>logged := logged s @
                   map (\<lambda>ee. DupNoteOn (fst (snd ee)) (fst ee) T_event (snd (snd ee)) d3) dups\<rparr>)))"

definition controller :: "int \<Rightarrow> byte list \<Rightarrow> nat \<Rightarrow> real \<Rightarrow> state \<Rightarrow> error + state" where
  "controller bpm data a T_event s =
     bind_err (getitem data (a + 2)) (\<lambda>d2.
     bind_err (getitem data (a + 3)) (\<lambda>d3.
     bind_err (getitem data (a + 1)) (\<lambda>d1.
     bind_err (quarter bpm) (\<lambda>q.
       Inr (s\<lparr>midi_out := midi_out s @ [ [0xb0, d2, d3] ],
              midi_file := midi_file s @
                [ControllerEvent 0 (d1 AND 0x0f) (T_event / q) d2 d3]\<rparr>)))))"

subsection \<open>Channel filter and dispatch on the status (lines 123 to 157)\<close>

definition handle_event :: "int \<Rightarrow> byte list \<Rightarrow> nat \<Rightarrow> real \<Rightarrow> state \<Rightarrow> error + state" where
  "handle_event bpm data a T_event s =
     bind_err (getitem data (1 + a)) (\<lambda>b.
       if b AND 0x0f \<noteq> 0 then Inr s
       else if b AND 0xf0 = 0x80 then note_off bpm data a T_event s
       else if b AND 0xf0 = 0x90 then note_on data a T_event s
       else if b AND 0xf0 = 0xb0 then controller bpm data a T_event s
       else Inr s)"

subsection \<open>One 4-byte group, and the loop over the groups (lines 101 to 157)\<close>

text \<open>The loop carries \<open>high\<close>, \<open>low0\<close>, \<open>N\<close> and the consumer's state.\<close>

type_synonym loop_state = "int \<times> int \<times> int \<times> state"

definition handle_group :: "int \<Rightarrow> real \<Rightarrow> byte list \<Rightarrow> nat \<Rightarrow> loop_state \<Rightarrow> error + loop_state" where
  "handle_group bpm T_elapsed data a st =
     (case st of (high, low0, N, s) \<Rightarrow>
        bind_err (getitem data a) (\<lambda>b.
          let low = uint (b AND 0x7f) in
          case clock_step high low0 low of (high', T_packet) \<Rightarrow>
          case unwrap N (T_cycle0 s) T_elapsed T_packet of (N', c', T_event, lg) \<Rightarrow>
            bind_err
              (handle_event bpm data a T_event (s\<lparr>T_cycle0 := c', logged := logged s @ lg\<rparr>))
              (\<lambda>s'. Inr (high', low, N', s'))))"

fun handle_groups :: "int \<Rightarrow> real \<Rightarrow> byte list \<Rightarrow> nat list \<Rightarrow> loop_state \<Rightarrow> error + state" where
  "handle_groups bpm T_elapsed data [] st = Inr (snd (snd (snd st)))"
| "handle_groups bpm T_elapsed data (a # as) st =
     bind_err (handle_group bpm T_elapsed data a st) (handle_groups bpm T_elapsed data as)"

subsection \<open>One packet (lines 91 to 157)\<close>

definition process_packet :: "int \<Rightarrow> real \<Rightarrow> byte list \<Rightarrow> state \<Rightarrow> error + state" where
  "process_packet bpm T_elapsed data s =
     (let s0 = s\<lparr>logged := logged s @ [Received T_elapsed data]\<rparr>;
          ss = (int (length data) - 1) AND 0x03
      in if ss \<noteq> 0 then Inr (s0\<lparr>logged := logged s0 @ [CannotParse (length data)]\<rparr>)
         else
           bind_err (getitem data 0) (\<lambda>b0.
           bind_err (getitem data 1) (\<lambda>b1.
             handle_groups bpm T_elapsed data (range4 1 (length data - 1))
               (uint (b0 AND 0x3f), uint (b1 AND 0x7f), 0, s0))))"

subsection \<open>The consumer (lines 61 to 157)\<close>

text \<open>
  \<open>midi_file.writeFile\<close> on line 88 is code of the MIDIUtil library, which is not part of
  the repository, and it can raise: KeyError, for one, when it pairs the note-on and note-off
  events of a timeline in which a note-off is sorted before its note-on. The call is a
  parameter: the exception it raises on a timeline, if any.
\<close>

type_synonym library_call = "midi_event list \<rightharpoonup> error"

text \<open>
  The queue is the list of the messages that are put on it. The message \<open>(T, None)\<close>
  ends the loop: the port is closed and the file written, unless \<open>writeFile\<close> raises, and
  then the exception leaves the consumer. When the list is used up the consumer waits in
  \<open>queue.get()\<close>; the state it waits in is returned, with no file written.
\<close>

definition finish :: "library_call \<Rightarrow> state \<Rightarrow> error + state" where
  "finish writeFile s =
     (let lg = logged s @ [Disconnection] @
                 (if length (E_ON s) \<noteq> 0 then [UnmatchedNoteOn (length (E_ON s))] else [])
      in case writeFile (midi_file s) of
           Some e \<Rightarrow> Inl e
         | None \<Rightarrow>
             Inr (s\<lparr>port_open := False, logged := lg, written := Some (midi_file s)\<rparr>))"

fun consumer_loop ::
    "int \<Rightarrow> library_call \<Rightarrow> (real \<times> byte list option) list \<Rightarrow> state \<Rightarrow> error + state" where
  "consumer_loop bpm writeFile [] s = Inr s"
| "consumer_loop bpm writeFile ((T_elapsed, None) # queue) s = finish writeFile s"
| "consumer_loop bpm writeFile ((T_elapsed, Some data) # queue) s =
     bind_err (process_packet bpm T_elapsed data s) (consumer_loop bpm writeFile queue)"

definition init_state :: "int \<Rightarrow> string \<Rightarrow> state" where
  "init_state bpm file_name =
     \<lparr>T_cycle0 = 0, E_ON = [],
      midi_file = [TrackName 0 0 file_name, Tempo 0 0 bpm],
      midi_out = [], port_open = True, logged = [], written = None\<rparr>"

definition run_queue_consumer ::
    "int \<Rightarrow> string \<Rightarrow> library_call \<Rightarrow> (real \<times> byte list option) list \<Rightarrow> error + state" where
  "run_queue_consumer bpm file_name writeFile queue =
     consumer_loop bpm writeFile queue (init_state bpm file_name)"

subsection \<open>Views of the loop used in the statements below\<close>

text \<open>
  The values \<open>T_packet\<close> takes in the loop over one payload (lines 97 to 106): the loop's
  \<open>high\<close> and \<open>low0\<close>, stepped by \<open>clock_step\<close> over the low fields of the groups.
  It is used for payloads of two bytes or more, where lines 97 and 98 do not raise.
\<close>

fun clocks :: "int \<Rightarrow> int \<Rightarrow> int list \<Rightarrow> int list" where
  "clocks high low0 [] = []"
| "clocks high low0 (low # lows) =
     (case clock_step high low0 low of (high', T_packet) \<Rightarrow> T_packet # clocks high' low lows)"

definition packet_clocks :: "byte list \<Rightarrow> int list" where
  "packet_clocks data =
     clocks (uint (data ! 0 AND 0x3f)) (uint (data ! 1 AND 0x7f))
       (map (\<lambda>a. uint (data ! a AND 0x7f)) (range4 1 (length data - 1)))"

text \<open>
  The values \<open>T_event\<close> takes over a session, given for each packet its arrival time and
  the values of \<open>T_packet\<close> in it: \<open>N\<close> starts at 0 in every packet (line 100),
  \<open>T_cycle0\<close> is carried from packet to packet.
\<close>

fun packet_stamps :: "int \<Rightarrow> real \<Rightarrow> real \<Rightarrow> int list \<Rightarrow> real \<times> real list" where
  "packet_stamps N c T_elapsed [] = (c, [])"
| "packet_stamps N c T_elapsed (T_packet # ps) =
     (case unwrap N c T_elapsed T_packet of (N', c', T_event, lg) \<Rightarrow>
        case packet_stamps N' c' T_elapsed ps of (c'', ts) \<Rightarrow> (c'', T_event # ts))"

fun session_stamps :: "real \<Rightarrow> (real \<times> int list) list \<Rightarrow> real list" where
  "session_stamps c [] = []"
| "session_stamps c ((T_elapsed, ps) # pkts) =
     (case packet_stamps 0 c T_elapsed ps of (c', ts) \<Rightarrow> ts @ session_stamps c' pkts)"

subsection \<open>The specification's words\<close>

text \<open>
  The timestamp as section 4.1 of the specification words it, steps 1 to 4, for an epoch
  that is fixed already.
\<close>

definition spec_timestamp :: "real \<Rightarrow> real \<Rightarrow> int \<Rightarrow> real" where
  "spec_timestamp epoch arrival_time local_clock =
     (let N = \<lfloor>(arrival_time - epoch) / 8192\<rfloor>;
          DT = (arrival_time - epoch) - 8192 * real_of_int N;
          N' = (if \<bar>DT - real_of_int local_clock\<bar> > 4096
                then (if real_of_int local_clock > DT then N - 1 else N + 1) else N)
      in epoch + 8192 * real_of_int N' + real_of_int local_clock)"

text \<open>
  The device counter has 13 bits: when \<open>t\<close> milliseconds of device time have passed since
  the counter read 0, it reads \<open>t mod 8192\<close>. A session is given as its packets, each with
  its arrival time and the device times of its sub-events.
\<close>

definition device_readings :: "(real \<times> int list) list \<Rightarrow> (real \<times> int list) list" where
  "device_readings pkts = map (\<lambda>(a, ts). (a, map (\<lambda>t. t mod 8192) ts)) pkts"

text \<open>
  Drift per gap, as section 8 words it: from one sub-event to the next, the time that passed
  on the host and the time that passed on the device differ by less than 4096.
\<close>

fun gap_drift_bounded :: "(real \<times> int) list \<Rightarrow> bool" where
  "gap_drift_bounded ((a1, t1) # (a2, t2) # es) =
     (\<bar>(a2 - a1) - real_of_int (t2 - t1)\<bar> < 4096 \<and> gap_drift_bounded ((a2, t2) # es))"
| "gap_drift_bounded es = True"

subsection \<open>The event times of a queue\<close>

text \<open>
  The values \<open>T_event\<close> takes while the consumer drains a queue, in the order of the
  sub-events: a payload that fails the length check has none, and the message that ends the
  session is the last one read.
\<close>

fun queue_stamps :: "real \<Rightarrow> (real \<times> byte list option) list \<Rightarrow> real list" where
  "queue_stamps c [] = []"
| "queue_stamps c ((T_elapsed, None) # queue) = []"
| "queue_stamps c ((T_elapsed, Some data) # queue) =
     (if (int (length data) - 1) AND 0x03 \<noteq> 0 then queue_stamps c queue
      else case packet_stamps 0 c T_elapsed (packet_clocks data) of
             (c', ts) \<Rightarrow> ts @ queue_stamps c' queue)"

text \<open>A timeline entry that is not a note of negative duration.\<close>

fun nonneg_note :: "midi_event \<Rightarrow> bool" where
  "nonneg_note (Note tr ch p t d v) = (0 \<le> d)"
| "nonneg_note e = True"

section \<open>Bit masks as arithmetic\<close>

lemma and_3_eq_mod_4: "(x::int) AND 3 = x mod 4"
proof -
  have "x AND 3 = x AND mask 2" by (simp add: mask_eq_exp_minus_1)
  also have "\<dots> = take_bit 2 x" by (simp add: take_bit_eq_mask)
  also have "\<dots> = x mod 4" by (simp add: take_bit_eq_mod)
  finally show ?thesis .
qed

lemma shift_or_eq_add:
  assumes "0 \<le> l" "l < 128"
  shows "push_bit 7 (h::int) OR l = 128 * h + l"
proof -
  have l: "take_bit 7 l = l" using assms by (simp add: take_bit_int_eq_self)
  have "push_bit 7 h AND take_bit 7 l = 0"
    by (rule bit_eqI) (auto simp add: bit_simps)
  then have "push_bit 7 h + l = push_bit 7 h OR l"
    using disjunctive_add_eq_or[of "push_bit 7 h" l] l by simp
  then show ?thesis by (simp add: push_bit_eq_mult)
qed

text \<open>The equations that let the simplifier run the consumer on a concrete queue.\<close>

lemmas run_defs = process_packet_def getitem_def bind_err_def range4.simps handle_group_def
  clock_step_def unwrap_def floordiv_def pymod_def handle_event_def note_on_def note_off_def
  controller_def quarter_def pop_def run_queue_consumer_def init_state_def finish_def

section \<open>Payload length and the bytes that are read\<close>

text \<open>
  C5. A payload whose length minus 1 is not a multiple of 4 is rejected: the packet is
  logged and dropped, the only change to the consumer's state is the two log lines (so the
  epoch, the pending notes, the timeline and the live output are as before), no exception is
  raised and the consumer goes on with the next message.
\<close>

theorem malformed_length_rejected:
  assumes "(int (length data) - 1) mod 4 \<noteq> 0"
  shows "process_packet bpm T_elapsed data s =
           Inr (s\<lparr>logged := logged s @ [Received T_elapsed data, CannotParse (length data)]\<rparr>)
         \<and> consumer_loop bpm writeFile ((T_elapsed, Some data) # queue) s =
           consumer_loop bpm writeFile queue
             (s\<lparr>logged := logged s @ [Received T_elapsed data, CannotParse (length data)]\<rparr>)"
proof -
  from assms have "(int (length data) - 1) AND 3 \<noteq> 0"
    by (simp only: and_3_eq_mod_4 not_False_eq_True)
  then have "process_packet bpm T_elapsed data s =
      Inr (s\<lparr>logged := logged s @ [Received T_elapsed data, CannotParse (length data)]\<rparr>)"
    by (simp add: process_packet_def)
  then show ?thesis
    by (simp add: bind_err_def)
qed

theorem malformed_length_rejected_witness:
  "(int (length [0x80, 0x81, 0x90 :: byte]) - 1) mod 4 \<noteq> 0
   \<and> process_packet 120 7 [0x80, 0x81, 0x90] (init_state 120 ''Track1'') =
       Inr ((init_state 120 ''Track1'')
              \<lparr>logged := [Received 7 [0x80, 0x81, 0x90], CannotParse 3]\<rparr>)"
  using malformed_length_rejected [of "[0x80, 0x81, 0x90]" 120 7 "init_state 120 ''Track1''" Map.empty "[]"]
  by (simp add: init_state_def)

text \<open>
  C10. A payload of one byte passes the length check, since \<open>(1 - 1) & 3 = 0\<close>, and the
  read of \<open>data[1]\<close> on line 98 is then out of bounds: the consumer ends with IndexError.
\<close>

theorem length_one_payload_raises:
  "(int (length [b]) - 1) AND 0x03 = 0
   \<and> process_packet bpm T_elapsed [b] s = Inl IndexError
   \<and> consumer_loop bpm writeFile ((T_elapsed, Some [b]) # queue) s = Inl IndexError"
  by (simp add: process_packet_def getitem_def bind_err_def)

text \<open>
  One byte is the only length at which a read leaves the payload. The indices of the loop
  are 1, 5, 9, ... below \<open>len(data) - 1\<close>, and with \<open>len(data) - 1\<close> a multiple of 4 each
  of them has its three followers inside the payload.
\<close>

lemma range4_elems: "x \<in> set (range4 a stop) \<Longrightarrow> a \<le> x \<and> x < stop \<and> x mod 4 = a mod 4"
proof (induction a stop rule: range4.induct)
  case (1 a stop)
  show ?case
  proof (cases "a < stop")
    case True
    with "1.prems" have "x = a \<or> x \<in> set (range4 (a + 4) stop)"
      by (simp add: range4.simps [of a stop])
    then show ?thesis
    proof
      assume "x = a"
      with True show ?thesis by simp
    next
      assume "x \<in> set (range4 (a + 4) stop)"
      from "1.IH" [OF True this] show ?thesis by (simp add: mod_simps)
    qed
  next
    case False
    with "1.prems" show ?thesis by (simp add: range4.simps [of a stop])
  qed
qed

lemma group_index_in_bounds:
  assumes "(int (length data) - 1) AND 0x03 = 0" and "x \<in> set (range4 1 (length data - 1))"
  shows "x + 3 < length data"
proof -
  from range4_elems [OF assms(2)] have x: "x < length data - 1" "x mod 4 = 1" by simp_all
  from assms(1) have "(int (length data) - 1) mod 4 = 0" by (simp only: and_3_eq_mod_4)
  with x show ?thesis by presburger
qed

lemma handle_event_no_index_error:
  "a + 3 < length data \<Longrightarrow> handle_event bpm data a T_event s \<noteq> Inl IndexError"
  by (simp add: handle_event_def note_off_def note_on_def controller_def bind_err_def
      getitem_def quarter_def Let_def split: option.splits)

lemma handle_group_no_index_error:
  "a + 3 < length data \<Longrightarrow> handle_group bpm T_elapsed data a st \<noteq> Inl IndexError"
  using handle_event_no_index_error [of a data bpm]
  by (auto simp add: handle_group_def bind_err_def getitem_def Let_def split: prod.splits sum.splits)

lemma handle_groups_no_index_error:
  "\<forall>a\<in>set as. a + 3 < length data \<Longrightarrow> handle_groups bpm T_elapsed data as st \<noteq> Inl IndexError"
proof (induction as arbitrary: st)
  case Nil
  then show ?case by simp
next
  case (Cons a as)
  then show ?case
    using handle_group_no_index_error [of a data bpm T_elapsed st]
    by (cases "handle_group bpm T_elapsed data a st") (auto simp add: bind_err_def)
qed

lemma reads_in_bounds:
  assumes "length data \<noteq> 1"
  shows "process_packet bpm T_elapsed data s \<noteq> Inl IndexError"
proof (cases "(int (length data) - 1) AND 0x03 = 0")
  case False
  then show ?thesis by (simp add: process_packet_def)
next
  case True
  then have "(int (length data) - 1) mod 4 = 0" by (simp only: and_3_eq_mod_4)
  with assms have "1 < length data" by presburger
  moreover have "\<forall>a\<in>set (range4 1 (length data - 1)). a + 3 < length data"
    using group_index_in_bounds [OF True] by blast
  ultimately show ?thesis
    using True by (auto simp add: process_packet_def bind_err_def getitem_def handle_groups_no_index_error)
qed

section \<open>The packet-local clock\<close>

text \<open>
  C8, as the specification has it, at the payload whose first group reads 8000 (high field
  62, low field 64) and whose second group has the low field 50: the second reading is
  \<open>63 * 128 + 50 = 8114\<close>, not \<open>8192 + 50\<close>, and the two note-ons are 114 ms apart.
\<close>

theorem reading_8000_then_50:
  "packet_clocks [0xBE, 0xC0, 0x90, 60, 100, 0xB2, 0x90, 62, 100] = [8000, 8114]
   \<and> last (packet_clocks [0xBE, 0xC0, 0x90, 60, 100, 0xB2, 0x90, 62, 100]) \<noteq> 8192 + 50
   \<and> map_sum id E_ON (process_packet 120 20000 [0xBE, 0xC0, 0x90, 60, 100, 0xB2, 0x90, 62, 100]
        (init_state 120 ''Track1'')) = Inr [(20000, 60, 100), (20114, 62, 100)]"
  by (simp add: run_defs packet_clocks_def)

text \<open>
  C8, amended. When the low field of a group is less than the low field of the group before
  it, the high field goes up by 1 and the reading is \<open>128 * (high + 1) + low\<close>, which is
  more than the reading before: the clock does not jump back. After the reading 8000 the
  low field 50 gives 8114; the reading \<open>8192 + 50\<close> comes when the high field was 63
  already, as after the reading 8191.
\<close>

theorem low_decrease_increments_high:
  "(0 \<le> low \<and> low < low0 \<and> low0 < 128 \<longrightarrow>
      clock_step high low0 low = (high + 1, 128 * (high + 1) + low)
      \<and> 128 * high + low0 < 128 * (high + 1) + low)
   \<and> packet_clocks [0xBE, 0xC0, 0x90, 60, 100, 0xB2, 0x90, 62, 100] = [8000, 63 * 128 + 50]
   \<and> packet_clocks [0xBF, 0xFF, 0x90, 60, 100, 0xB2, 0x90, 62, 100] = [8191, 8192 + 50]"
proof -
  have "clock_step high low0 low = (high + 1, 128 * (high + 1) + low)"
    if "0 \<le> low" "low < low0" "low0 < 128"
    using that by (simp add: clock_step_def shift_or_eq_add)
  moreover
  have "packet_clocks [0xBE, 0xC0, 0x90, 60, 100, 0xB2, 0x90, 62, 100] = [8000, 63 * 128 + 50]"
    by (simp add: packet_clocks_def clock_step_def range4.simps)
  moreover
  have "packet_clocks [0xBF, 0xFF, 0x90, 60, 100, 0xB2, 0x90, 62, 100] = [8191, 8192 + 50]"
    by (simp add: packet_clocks_def clock_step_def range4.simps)
  ultimately show ?thesis by simp
qed

theorem low_decrease_increments_high_witness:
  "(0::int) \<le> 50 \<and> (50::int) < 64 \<and> (64::int) < 128 \<and> clock_step 62 64 50 = (63, 8114)"
  using low_decrease_increments_high [of 50 64 62] by simp

section \<open>The epoch\<close>

text \<open>
  While \<open>T_cycle0\<close> is 0 a sub-event fixes it as \<open>T_elapsed - T_packet\<close>; once it is
  not 0 it stays, and \<open>T_event\<close> is the timestamp of section 4.1.
\<close>

lemma unwrap_first_epoch:
  "fst (snd (unwrap N 0 T_elapsed T_packet)) = T_elapsed - real_of_int T_packet"
  by (simp add: unwrap_def Let_def)

lemma unwrap_spec_timestamp:
  assumes "c \<noteq> 0"
  shows "fst (snd (unwrap N c T_elapsed T_packet)) = c
       \<and> fst (snd (snd (unwrap N c T_elapsed T_packet))) = spec_timestamp c T_elapsed T_packet"
  using assms by (simp add: unwrap_def spec_timestamp_def floordiv_def pymod_def Let_def)

lemma packet_stamps_keeps_epoch: "c \<noteq> 0 \<Longrightarrow> fst (packet_stamps N c T_elapsed ps) = c"
proof (induction ps arbitrary: N)
  case Nil
  then show ?case by simp
next
  case (Cons p ps)
  obtain N' c' ev lg where u: "unwrap N c T_elapsed p = (N', c', ev, lg)"
    by (metis prod_cases4)
  with unwrap_spec_timestamp [OF Cons.prems, of N T_elapsed p] have "c' = c" by simp
  with Cons.IH [OF Cons.prems, of N'] u show ?case
    by (auto split: prod.splits)
qed

lemma note_off_epoch: "note_off bpm data a T_event s = Inr s' \<Longrightarrow> T_cycle0 s' = T_cycle0 s"
  by (auto simp add: note_off_def bind_err_def getitem_def quarter_def Let_def
      split: if_splits option.splits)

lemma note_on_epoch: "note_on data a T_event s = Inr s' \<Longrightarrow> T_cycle0 s' = T_cycle0 s"
  by (auto simp add: note_on_def bind_err_def getitem_def Let_def split: if_splits)

lemma controller_epoch: "controller bpm data a T_event s = Inr s' \<Longrightarrow> T_cycle0 s' = T_cycle0 s"
  by (auto simp add: controller_def bind_err_def getitem_def quarter_def split: if_splits)

lemma handle_event_epoch:
  "handle_event bpm data a T_event s = Inr s' \<Longrightarrow> T_cycle0 s' = T_cycle0 s"
  by (auto simp add: handle_event_def bind_err_def getitem_def
      dest: note_off_epoch note_on_epoch controller_epoch split: if_splits)

text \<open>
  The epoch after the loop over a payload is the one \<open>packet_stamps\<close> computes from the
  readings \<open>clocks\<close> lists: the two views follow the loop.
\<close>

lemma handle_groups_epoch:
  "handle_groups bpm T_elapsed data as (high, low0, N, s) = Inr s' \<Longrightarrow>
     T_cycle0 s' = fst (packet_stamps N (T_cycle0 s) T_elapsed
                     (clocks high low0 (map (\<lambda>a. uint (data ! a AND 0x7f)) as)))"
proof (induction as arbitrary: high low0 N s)
  case Nil
  then show ?case by simp
next
  case (Cons a as)
  let ?low = "uint (data ! a AND 0x7f)"
  obtain high' p where cs: "clock_step high low0 ?low = (high', p)" by fastforce
  obtain N' c' ev lg where u: "unwrap N (T_cycle0 s) T_elapsed p = (N', c', ev, lg)"
    by (metis prod_cases4)
  from Cons.prems obtain s1 where
    h: "handle_event bpm data a ev (s\<lparr>T_cycle0 := c', logged := logged s @ lg\<rparr>) = Inr s1"
    and g: "handle_groups bpm T_elapsed data as (high', ?low, N', s1) = Inr s'"
    using cs u
    by (auto simp add: handle_group_def bind_err_def getitem_def Let_def split: if_splits sum.splits)
  from handle_event_epoch [OF h] have "T_cycle0 s1 = c'" by simp
  with Cons.IH [OF g] cs u show ?case
    by (auto split: prod.splits)
qed

lemma process_packet_epoch:
  assumes "process_packet bpm T_elapsed data s = Inr s'"
  shows "T_cycle0 s' =
     (if (int (length data) - 1) AND 0x03 \<noteq> 0 then T_cycle0 s
      else fst (packet_stamps 0 (T_cycle0 s) T_elapsed (packet_clocks data)))"
proof (cases "(int (length data) - 1) AND 0x03 \<noteq> 0")
  case True
  with assms show ?thesis by (auto simp add: process_packet_def)
next
  case False
  with assms have "handle_groups bpm T_elapsed data (range4 1 (length data - 1))
      (uint (data ! 0 AND 0x3f), uint (data ! 1 AND 0x7f), 0,
       s\<lparr>logged := logged s @ [Received T_elapsed data]\<rparr>) = Inr s'"
    by (auto simp add: process_packet_def bind_err_def getitem_def Let_def split: if_splits)
  from handle_groups_epoch [OF this] False show ?thesis
    by (simp add: packet_clocks_def)
qed

lemma epoch_kept:
  assumes "T_cycle0 s \<noteq> 0" and "process_packet bpm T_elapsed data s = Inr s'"
  shows "T_cycle0 s' = T_cycle0 s"
  using process_packet_epoch [OF assms(2)] packet_stamps_keeps_epoch [OF assms(1)]
  by (simp split: if_splits)

text \<open>
  C3. The first packet arrives at 125 ms with the device clock at 125: the epoch is fixed
  as \<open>125 - 125 = 0\<close>, which is also the value that stands for "not fixed yet" (line 107).
  The second packet, at 9000 ms with the device clock at 500, fixes it again, as 8500.
\<close>

theorem epoch_zero_is_fixed_again:
  "map_sum id T_cycle0 (run_queue_consumer 120 ''Track1'' writeFile
        [(125, Some [0x80, 0xFD, 0x90, 60, 100])]) = Inr (125 - 125)
   \<and> map_sum id T_cycle0 (run_queue_consumer 120 ''Track1'' writeFile
        [(125, Some [0x80, 0xFD, 0x90, 60, 100]), (9000, Some [0x83, 0xF4, 0x90, 62, 100])])
      = Inr (9000 - 500)"
  by (simp add: run_defs)

text \<open>
  C1. On the same two packets the second sub-event is not given the timestamp of steps 1 to
  4 for the epoch 0 that the first sub-event fixed, which is 8692: its note-on is pending
  with the onset 9000.
\<close>

theorem second_sub_event_takes_new_epoch:
  "packet_clocks [0x80, 0xFD, 0x90, 60, 100] = [125]
   \<and> packet_clocks [0x83, 0xF4, 0x90, 62, 100] = [500]
   \<and> map_sum id E_ON (run_queue_consumer 120 ''Track1'' writeFile
        [(125, Some [0x80, 0xFD, 0x90, 60, 100]), (9000, Some [0x83, 0xF4, 0x90, 62, 100])])
      = Inr [(125, 60, 100), (9000, 62, 100)]
   \<and> spec_timestamp (125 - 125) 9000 500 = 8692"
  by (simp add: run_defs packet_clocks_def spec_timestamp_def)

section \<open>The time correction\<close>

lemma pymod_bounds: "0 \<le> pymod x 8192 \<and> pymod x 8192 < 8192"
proof -
  have "real_of_int \<lfloor>x / 8192\<rfloor> \<le> x / 8192" by (rule of_int_floor_le)
  moreover have "x / 8192 < real_of_int \<lfloor>x / 8192\<rfloor> + 1" by linarith
  ultimately show ?thesis by (simp add: pymod_def field_simps)
qed

lemma pymod_of_reading:
  assumes "0 \<le> p" "p < 8192"
  shows "pymod (real_of_int p) 8192 = real_of_int p"
proof -
  have "\<lfloor>real_of_int p / 8192\<rfloor> = 0"
    using assms by (simp add: floor_eq_iff)
  then show ?thesis by (simp add: pymod_def)
qed

lemma unwrap_first_reading:
  assumes "0 \<le> p" "p < 8192"
  shows "unwrap 0 0 a p = (0, a - real_of_int p, a, [])"
  using assms by (simp add: unwrap_def Let_def pymod_of_reading)

lemma unwrap_fixed:
  assumes "c \<noteq> 0"
  shows "unwrap N c a p =
    (floordiv (a - c) 8192, c,
     c + 8192 * real_of_int
       (if \<bar>pymod (a - c) 8192 - real_of_int p\<bar> > 4096
        then (if real_of_int p > pymod (a - c) 8192
              then floordiv (a - c) 8192 - 1 else floordiv (a - c) 8192 + 1)
        else floordiv (a - c) 8192) + real_of_int p,
     if \<bar>pymod (a - c) 8192 - real_of_int p\<bar> > 4096
     then [TimeError (floordiv (a - c) 8192) (pymod (a - c) 8192) p] else [])"
  using assms by (simp add: unwrap_def Let_def)

text \<open>
  With the epoch fixed and the host less than 4096 ms away from the device time \<open>t\<close>, the
  correction finds the cycle of \<open>t\<close> from its 13-bit reading: \<open>T_event\<close> is epoch plus \<open>t\<close>.
\<close>

lemma unwrap_exact:
  assumes c: "c \<noteq> 0" and d: "\<bar>a - c - real_of_int t\<bar> < 4096"
  shows "fst (snd (unwrap N c a (t mod 8192))) = c
       \<and> fst (snd (snd (unwrap N c a (t mod 8192)))) = c + real_of_int t"
proof -
  let ?n = "floordiv (a - c) 8192"
  let ?DT = "pymod (a - c) 8192"
  let ?p = "t mod 8192"
  define k where "k = t div 8192"
  have p: "0 \<le> ?p" "?p < 8192" by simp_all
  have DT: "0 \<le> ?DT" "?DT < 8192" using pymod_bounds [of "a - c"] by simp_all
  have x: "a - c = 8192 * real_of_int ?n + ?DT" by (simp add: pymod_def floordiv_def)
  have "t = 8192 * k + ?p" by (simp add: k_def)
  then have "real_of_int t = real_of_int (8192 * k + ?p)" by simp
  then have tr: "real_of_int t = 8192 * real_of_int k + real_of_int ?p" by simp
  from d have d': "\<bar>8192 * real_of_int ?n + ?DT - 8192 * real_of_int k - real_of_int ?p\<bar> < 4096"
    unfolding tr using x by linarith
  have M: "(if \<bar>?DT - real_of_int ?p\<bar> > 4096
            then (if real_of_int ?p > ?DT then ?n - 1 else ?n + 1) else ?n) = k"
  proof (cases "\<bar>?DT - real_of_int ?p\<bar> > 4096")
    case False
    with d' have "\<bar>real_of_int ?n - real_of_int k\<bar> < 1" by linarith
    then have "\<bar>real_of_int (?n - k)\<bar> < real_of_int 1" by simp
    then have "\<bar>?n - k\<bar> < 1" by (simp only: of_int_abs [symmetric] of_int_less_iff)
    then have "?n = k" by linarith
    with False show ?thesis by simp
  next
    case True
    show ?thesis
    proof (cases "real_of_int ?p > ?DT")
      case True
      with \<open>\<bar>?DT - real_of_int ?p\<bar> > 4096\<close> have g: "real_of_int ?p - ?DT > 4096" by linarith
      have "real_of_int ?p - ?DT < 8192" using p DT by linarith
      with g d' have "real_of_int 0 < real_of_int (?n - k)" "real_of_int (?n - k) < real_of_int 2"
        by simp_all
      then have "0 < ?n - k" "?n - k < 2" by (simp_all only: of_int_less_iff)
      then have "?n - 1 = k" by linarith
      with True \<open>\<bar>?DT - real_of_int ?p\<bar> > 4096\<close> show ?thesis by simp
    next
      case False
      with \<open>\<bar>?DT - real_of_int ?p\<bar> > 4096\<close> have g: "?DT - real_of_int ?p > 4096" by linarith
      have "?DT - real_of_int ?p < 8192" using p DT by linarith
      with g d' have "real_of_int (?n - k) < real_of_int 0" "real_of_int (- 2) < real_of_int (?n - k)"
        by simp_all
      then have "?n - k < 0" "- 2 < ?n - k" by (simp_all only: of_int_less_iff)
      then have "?n + 1 = k" by linarith
      with False \<open>\<bar>?DT - real_of_int ?p\<bar> > 4096\<close> show ?thesis by simp
    qed
  qed
  show ?thesis
    unfolding unwrap_fixed [OF c] M by (simp add: tr)
qed

lemma packet_stamps_exact:
  assumes "c \<noteq> 0" and "\<forall>t\<in>set ts. \<bar>a - c - real_of_int t\<bar> < 4096"
  shows "packet_stamps N c a (map (\<lambda>t. t mod 8192) ts) = (c, map (\<lambda>t. c + real_of_int t) ts)"
  using assms(2)
proof (induction ts arbitrary: N)
  case Nil
  then show ?case by simp
next
  case (Cons t ts)
  obtain N' c' ev lg where u: "unwrap N c a (t mod 8192) = (N', c', ev, lg)"
    by (metis prod_cases4)
  from Cons.prems have "\<bar>a - c - real_of_int t\<bar> < 4096" by simp
  from unwrap_exact [OF assms(1) this, of N] u have "c' = c" "ev = c + real_of_int t"
    by simp_all
  moreover from Cons.prems
  have "packet_stamps N' c a (map (\<lambda>t. t mod 8192) ts) = (c, map (\<lambda>t. c + real_of_int t) ts)"
    by (intro Cons.IH) simp
  ultimately show ?case using u by simp
qed

lemma session_stamps_exact:
  assumes "c \<noteq> 0"
    and "\<forall>(a, ts)\<in>set pkts. \<forall>t\<in>set ts. \<bar>a - c - real_of_int t\<bar> < 4096"
  shows "session_stamps c (device_readings pkts)
           = map (\<lambda>t. c + real_of_int t) (concat (map snd pkts))"
  using assms(2)
proof (induction pkts)
  case Nil
  then show ?case by (simp add: device_readings_def)
next
  case (Cons pkt pkts)
  obtain a ts where pkt: "pkt = (a, ts)" by (cases pkt)
  from Cons.prems pkt have "\<forall>t\<in>set ts. \<bar>a - c - real_of_int t\<bar> < 4096" by simp
  then have "packet_stamps 0 c a (map (\<lambda>t. t mod 8192) ts)
      = (c, map (\<lambda>t. c + real_of_int t) ts)"
    by (rule packet_stamps_exact [OF assms(1)])
  moreover from Cons.prems have "session_stamps c (device_readings pkts)
      = map (\<lambda>t. c + real_of_int t) (concat (map snd pkts))"
    by (intro Cons.IH) simp
  ultimately show ?case
    using pkt by (simp add: device_readings_def)
qed

lemma session_stamps_true_time:
  assumes e: "epoch = a0 - real_of_int (t0 mod 8192)" and nz: "epoch \<noteq> 0"
    and d: "\<forall>(a, ts)\<in>set ((a0, t0 # ts0) # pkts). \<forall>t\<in>set ts. \<bar>a - epoch - real_of_int t\<bar> < 4096"
  shows "session_stamps 0 (device_readings ((a0, t0 # ts0) # pkts))
           = map (\<lambda>t. epoch + real_of_int t) (concat (map snd ((a0, t0 # ts0) # pkts)))"
proof -
  from d have "\<bar>a0 - epoch - real_of_int t0\<bar> < 4096" by simp
  then have "\<bar>real_of_int (t0 mod 8192 - t0)\<bar> < real_of_int 4096" by (simp add: e)
  then have "\<bar>t0 mod 8192 - t0\<bar> < 4096" by (simp only: of_int_abs [symmetric] of_int_less_iff)
  moreover have "t0 = 8192 * (t0 div 8192) + t0 mod 8192" by simp
  ultimately have "t0 div 8192 = 0" by linarith
  then have t0: "t0 mod 8192 = t0" using \<open>t0 = 8192 * (t0 div 8192) + t0 mod 8192\<close> by simp
  have r: "0 \<le> t0 mod 8192" "t0 mod 8192 < 8192" by simp_all
  have first: "unwrap 0 0 a0 (t0 mod 8192) = (0, epoch, epoch + real_of_int t0, [])"
    using unwrap_first_reading [OF r, of a0] e t0 by simp
  from d have "\<forall>t\<in>set ts0. \<bar>a0 - epoch - real_of_int t\<bar> < 4096" by simp
  then have rest: "packet_stamps 0 epoch a0 (map (\<lambda>t. t mod 8192) ts0)
      = (epoch, map (\<lambda>t. epoch + real_of_int t) ts0)"
    by (rule packet_stamps_exact [OF nz])
  from d have "\<forall>(a, ts)\<in>set pkts. \<forall>t\<in>set ts. \<bar>a - epoch - real_of_int t\<bar> < 4096" by simp
  then have later: "session_stamps epoch (device_readings pkts)
      = map (\<lambda>t. epoch + real_of_int t) (concat (map snd pkts))"
    by (rule session_stamps_exact [OF nz])
  have "device_readings ((a0, t0 # ts0) # pkts)
      = (a0, (t0 mod 8192) # map (\<lambda>t. t mod 8192) ts0) # device_readings pkts"
    by (simp add: device_readings_def)
  then show ?thesis
    using first rest later by simp
qed

text \<open>
  C2, as the specification has it, on three packets that arrive 10 ms apart while the device
  clock advances by 4000 ms from each to the next: the device time is monotone and the
  drift of each gap is 3990 ms, and the timestamps are 10000, 14000 and 9808.
\<close>

theorem per_gap_drift_counterexample:
  "gap_drift_bounded [(10000, 0), (10010, 4000), (10020, 8000)]
   \<and> sorted [0, 4000, 8000 :: int]
   \<and> device_readings [(10000, [0]), (10010, [4000]), (10020, [8000])]
       = [(10000, [0]), (10010, [4000]), (10020, [8000])]
   \<and> session_stamps 0 [(10000, [0]), (10010, [4000]), (10020, [8000])] = [10000, 14000, 9808]
   \<and> \<not> sorted (session_stamps 0 (device_readings [(10000, [0]), (10010, [4000]), (10020, [8000])]))
   \<and> map_sum id E_ON (run_queue_consumer 120 ''Track1'' Map.empty
        [(10000, Some [0x80, 0x80, 0x90, 60, 100]),
         (10010, Some [0x9F, 0xA0, 0x90, 61, 100]),
         (10020, Some [0xBE, 0xC0, 0x90, 62, 100])])
      = Inr [(10000, 60, 100), (14000, 61, 100), (9808, 62, 100)]"
  by (simp add: device_readings_def unwrap_def floordiv_def pymod_def
      process_packet_def getitem_def bind_err_def range4.simps handle_group_def
      clock_step_def handle_event_def note_on_def run_queue_consumer_def init_state_def)

text \<open>
  C2, amended. Let the sub-events of a session have the device times \<open>t\<close>, counted from
  the instant the 13-bit counter read 0 before the first one, let these advance monotonically,
  and let every sub-event arrive less than 4096 ms away from \<open>epoch + t\<close>, where
  \<open>epoch\<close> is the arrival of the first sub-event minus its reading and is not 0. Then the
  timestamps are non-decreasing over the session (each is \<open>epoch + t\<close>).
\<close>

theorem stamps_non_decreasing:
  assumes "epoch = a0 - real_of_int (t0 mod 8192)" and "epoch \<noteq> 0"
    and "\<forall>(a, ts)\<in>set ((a0, t0 # ts0) # pkts). \<forall>t\<in>set ts. \<bar>a - epoch - real_of_int t\<bar> < 4096"
    and "sorted (concat (map snd ((a0, t0 # ts0) # pkts)))"
  shows "sorted (session_stamps 0 (device_readings ((a0, t0 # ts0) # pkts)))"
proof -
  have "sorted (map (\<lambda>t. epoch + real_of_int t) xs)" if "sorted xs" for xs :: "int list"
    using that by (simp add: sorted_map sorted_wrt_iff_nth_less sorted_iff_nth_mono_less)
  from this [OF assms(4)] show ?thesis
    by (simp only: session_stamps_true_time [OF assms(1-3)])
qed

theorem stamps_non_decreasing_witness:
  "(9900::real) = 10000 - real_of_int (100 mod 8192) \<and> (9900::real) \<noteq> 0
   \<and> sorted [100, 1100, 9000, 17500 :: int]
   \<and> sorted (session_stamps 0
         (device_readings [(10000, [100, 1100]), (20500, [9000]), (27000, [17500])]))"
  using stamps_non_decreasing [of 9900 10000 100 "[1100]" "[(20500, [9000]), (27000, [17500])]"]
  by simp

section \<open>Note-on and note-off\<close>

lemma find_note_None: "find_note p evs = None \<longleftrightarrow> (\<forall>ev\<in>set evs. fst (snd ev) \<noteq> p)"
  by (induction evs) auto

lemma find_note_first:
  "i < length evs \<Longrightarrow> fst (snd (evs ! i)) = p \<Longrightarrow> \<forall>j<i. fst (snd (evs ! j)) \<noteq> p
     \<Longrightarrow> find_note p evs = Some i"
proof (induction evs arbitrary: i)
  case Nil
  then show ?case by simp
next
  case (Cons ev evs)
  show ?case
  proof (cases i)
    case 0
    with Cons.prems show ?thesis by simp
  next
    case (Suc k)
    with Cons.prems have "fst (snd ev) \<noteq> p" by auto
    moreover from Suc Cons.prems have "find_note p evs = Some k"
      by (intro Cons.IH) auto
    ultimately show ?thesis using Suc by simp
  qed
qed

lemma find_note_Some:
  "find_note p evs = Some i \<Longrightarrow> i < length evs \<and> fst (snd (evs ! i)) = p"
  by (induction evs arbitrary: i) (auto split: if_splits)

text \<open>
  C6. A group inside the payload whose status byte is \<open>0x80\<close> (note-off, channel 0), with
  \<open>i\<close> the place of the first pending entry of its pitch: that entry is removed, the raw
  note-off is sent to the live output, and a note is added to the timeline with the entry's
  pitch and velocity, its onset and the time from the onset to the note-off, both divided by
  \<open>quarter()\<close>, which is \<open>60000 / bpm\<close>. The tempo is not 0.
\<close>

theorem matched_note_off:
  assumes "a + 3 < length data" and "data ! (a + 1) = 0x80" and "bpm \<noteq> 0"
    and "i < length (E_ON s)" and "fst (snd (E_ON s ! i)) = data ! (a + 2)"
    and "\<forall>j<i. fst (snd (E_ON s ! j)) \<noteq> data ! (a + 2)"
  shows "handle_event bpm data a T_event s =
     Inr (s\<lparr>midi_out := midi_out s @ [ [0x80, data ! (a + 2), data ! (a + 3)] ],
            midi_file := midi_file s @
              [Note 0 0 (data ! (a + 2))
                 (fst (E_ON s ! i) / (60000 / real_of_int bpm))
                 ((T_event - fst (E_ON s ! i)) / (60000 / real_of_int bpm))
                 (snd (snd (E_ON s ! i)))],
            E_ON := take i (E_ON s) @ drop (Suc i) (E_ON s)\<rparr>)"
proof -
  have "find_note (data ! (a + 2)) (E_ON s) = Some i"
    using assms(4-6) by (rule find_note_first)
  with assms(1-3,5) show ?thesis
    by (simp add: handle_event_def note_off_def getitem_def bind_err_def quarter_def pop_def Let_def)
qed

theorem matched_note_off_witness:
  "handle_event 120 [0x80, 0x85, 0x80, 60, 0] 1 11000
       ((init_state 120 ''Track1'')\<lparr>E_ON := [(10000, 64, 90), (10500, 60, 100), (10700, 60, 80)]\<rparr>)
   = Inr ((init_state 120 ''Track1'')
       \<lparr>midi_out := [ [0x80, 60, 0] ],
        midi_file := [TrackName 0 0 ''Track1'', Tempo 0 0 120, Note 0 0 60 21 1 100],
        E_ON := [(10000, 64, 90), (10700, 60, 80)]\<rparr>)"
  using matched_note_off [of 1 "[0x80, 0x85, 0x80, 60, 0]" 120 1
      "(init_state 120 ''Track1'')\<lparr>E_ON := [(10000, 64, 90), (10500, 60, 100), (10700, 60, 80)]\<rparr>" 11000]
  by (simp add: init_state_def)

text \<open>
  C7. A group inside the payload. A note-on on channel 0 whose pitch is pending already, and
  a note-off on channel 0 whose pitch is not pending, change nothing but the log: nothing is
  sent to the live output, nothing is added to the timeline, and the pending notes are as
  before.
\<close>

theorem duplicate_and_unmatched_suppressed:
  assumes "a + 3 < length data"
  shows "(data ! (a + 1) = 0x90 \<and> (\<exists>ev\<in>set (E_ON s). fst (snd ev) = data ! (a + 2)) \<longrightarrow>
            filter (\<lambda>ee. fst (snd ee) = data ! (a + 2)) (E_ON s) \<noteq> []
            \<and> handle_event bpm data a T_event s =
                Inr (s\<lparr>logged := logged s @
                  map (\<lambda>ee. DupNoteOn (fst (snd ee)) (fst ee) T_event (snd (snd ee)) (data ! (a + 3)))
                    (filter (\<lambda>ee. fst (snd ee) = data ! (a + 2)) (E_ON s))\<rparr>))
       \<and> (data ! (a + 1) = 0x80 \<and> (\<forall>ev\<in>set (E_ON s). fst (snd ev) \<noteq> data ! (a + 2)) \<longrightarrow>
            handle_event bpm data a T_event s =
              Inr (s\<lparr>logged := logged s @ [UnmatchedNoteOff (data ! (a + 2)) T_event]\<rparr>))"
proof (intro conjI impI)
  assume h: "data ! (a + 1) = 0x90 \<and> (\<exists>ev\<in>set (E_ON s). fst (snd ev) = data ! (a + 2))"
  then show ne: "filter (\<lambda>ee. fst (snd ee) = data ! (a + 2)) (E_ON s) \<noteq> []"
    by (auto simp add: filter_empty_conv)
  with h assms show "handle_event bpm data a T_event s =
      Inr (s\<lparr>logged := logged s @
        map (\<lambda>ee. DupNoteOn (fst (snd ee)) (fst ee) T_event (snd (snd ee)) (data ! (a + 3)))
          (filter (\<lambda>ee. fst (snd ee) = data ! (a + 2)) (E_ON s))\<rparr>)"
    by (simp add: handle_event_def note_on_def getitem_def bind_err_def)
next
  assume h: "data ! (a + 1) = 0x80 \<and> (\<forall>ev\<in>set (E_ON s). fst (snd ev) \<noteq> data ! (a + 2))"
  then have "find_note (data ! (a + 2)) (E_ON s) = None"
    by (simp add: find_note_None)
  with h assms show "handle_event bpm data a T_event s =
      Inr (s\<lparr>logged := logged s @ [UnmatchedNoteOff (data ! (a + 2)) T_event]\<rparr>)"
    by (simp add: handle_event_def note_off_def getitem_def bind_err_def)
qed

theorem duplicate_and_unmatched_suppressed_witness:
  "handle_event 120 [0x80, 0x85, 0x90, 64, 70] 1 11000
       ((init_state 120 ''Track1'')\<lparr>E_ON := [(10000, 64, 90)]\<rparr>)
     = Inr ((init_state 120 ''Track1'')
         \<lparr>E_ON := [(10000, 64, 90)], logged := [DupNoteOn 64 10000 11000 90 70]\<rparr>)
   \<and> handle_event 120 [0x80, 0x85, 0x80, 67, 0] 1 11000
       ((init_state 120 ''Track1'')\<lparr>E_ON := [(10000, 64, 90)]\<rparr>)
     = Inr ((init_state 120 ''Track1'')
         \<lparr>E_ON := [(10000, 64, 90)], logged := [UnmatchedNoteOff 67 11000]\<rparr>)"
  using duplicate_and_unmatched_suppressed [of 1 "[0x80, 0x85, 0x90, 64, 70]"
      "(init_state 120 ''Track1'')\<lparr>E_ON := [(10000, 64, 90)]\<rparr>" 120 11000]
    duplicate_and_unmatched_suppressed [of 1 "[0x80, 0x85, 0x80, 67, 0]"
      "(init_state 120 ''Track1'')\<lparr>E_ON := [(10000, 64, 90)]\<rparr>" 120 11000]
  by (simp add: init_state_def)

section \<open>Durations in the timeline\<close>

text \<open>
  C4, as the specification has it, on a note-on that arrives at 10000 ms with the device
  clock at 0 and its note-off that arrives at 10100 ms with the device clock at 5000: the
  correction puts the note-off one cycle back, at 6808 ms, and the timeline holds a note of
  duration \<open>(6808 - 10000) / 500\<close> beats.
\<close>

theorem negative_duration_in_timeline:
  "map_sum id midi_file (run_queue_consumer 120 ''Track1'' Map.empty
      [(10000, Some [0x80, 0x80, 0x90, 60, 100]),
       (10100, Some [0xA7, 0x88, 0x80, 60, 0])])
   = Inr [TrackName 0 0 ''Track1'', Tempo 0 0 120, Note 0 0 60 20 (- (3192 / 500)) 100]
   \<and> - (3192 / 500) < (0::real)
   \<and> queue_stamps 0
      [(10000, Some [0x80, 0x80, 0x90, 60, 100]),
       (10100, Some [0xA7, 0x88, 0x80, 60, 0])] = [10000, 6808]"
  by (simp add: run_defs packet_clocks_def)

text \<open>
  When the session is ended on that timeline and the library raises on it, the exception
  leaves the consumer and no file is written.
\<close>

lemma writeFile_exception_leaves:
  "writeFile (midi_file s) = Some e \<Longrightarrow>
     consumer_loop bpm writeFile ((T_elapsed, None) # queue) s = Inl e"
  by (simp add: finish_def)

lemma negative_duration_session_raises:
  "run_queue_consumer 120 ''Track1''
      [ [TrackName 0 0 ''Track1'', Tempo 0 0 120, Note 0 0 60 20 (- (3192 / 500)) 100]
         \<mapsto> KeyError]
      [(10000, Some [0x80, 0x80, 0x90, 60, 100]),
       (10100, Some [0xA7, 0x88, 0x80, 60, 0]),
       (10200, None)]
   = Inl KeyError"
  by (simp add: run_defs)

text \<open>
  Handling a sub-event whose time is not before any pending onset adds no note of negative
  duration, and leaves no pending onset after that time.
\<close>

lemma handle_event_cases:
  assumes "handle_event bpm data a T_event s = Inr s'"
  shows "s' = s
       \<or> note_off bpm data a T_event s = Inr s'
       \<or> note_on data a T_event s = Inr s'
       \<or> controller bpm data a T_event s = Inr s'"
  using assms
  by (auto simp add: handle_event_def bind_err_def split: sum.splits if_splits)

lemma set_pop_subset: "set (pop xs i) \<subseteq> set xs"
  using set_take_subset [of i xs] set_drop_subset [of "Suc i" xs]
  by (auto simp add: pop_def)

lemma handle_event_keeps_order:
  assumes bpm: "0 < bpm" and h: "handle_event bpm data a T_event s = Inr s'"
    and pend: "\<forall>ev\<in>set (E_ON s). fst ev \<le> T_event"
    and ok: "list_all nonneg_note (midi_file s)"
  shows "list_all nonneg_note (midi_file s') \<and> (\<forall>ev\<in>set (E_ON s'). fst ev \<le> T_event)"
proof -
  from handle_event_cases [OF h]
  consider "s' = s" | "note_off bpm data a T_event s = Inr s'"
    | "note_on data a T_event s = Inr s'" | "controller bpm data a T_event s = Inr s'"
    by blast
  then show ?thesis
  proof cases
    case 1
    with pend ok show ?thesis by simp
  next
    case 2
    show ?thesis
    proof (cases "find_note (data ! (a + 2)) (E_ON s)")
      case None
      with 2 have "midi_file s' = midi_file s" "E_ON s' = E_ON s"
        by (auto simp add: note_off_def bind_err_def getitem_def split: if_splits)
      with pend ok show ?thesis by simp
    next
      case (Some i)
      then have i: "i < length (E_ON s)" by (simp add: find_note_Some)
      let ?ev = "E_ON s ! i"
      let ?q = "60000 / real_of_int bpm"
      from 2 Some bpm have mf: "midi_file s' = midi_file s @
          [Note 0 (data ! (a + 1) AND 0x0f) (fst (snd ?ev)) (fst ?ev / ?q)
             ((T_event - fst ?ev) / ?q) (snd (snd ?ev))]"
        and eon: "E_ON s' = pop (E_ON s) i"
        by (auto simp add: note_off_def bind_err_def getitem_def quarter_def Let_def
            split: if_splits)
      have "?ev \<in> set (E_ON s)" using i by simp
      with pend have "fst ?ev \<le> T_event" by blast
      with bpm have "0 \<le> (T_event - fst ?ev) / ?q" by simp
      with mf ok have "list_all nonneg_note (midi_file s')" by simp
      moreover from eon pend set_pop_subset [of "E_ON s" i]
      have "\<forall>ev\<in>set (E_ON s'). fst ev \<le> T_event" by auto
      ultimately show ?thesis by simp
    qed
  next
    case 3
    then have "midi_file s' = midi_file s"
      "E_ON s' = E_ON s \<or> (\<exists>p v. E_ON s' = E_ON s @ [(T_event, p, v)])"
      by (auto simp add: note_on_def bind_err_def getitem_def Let_def split: if_splits)
    with pend ok show ?thesis by auto
  next
    case 4
    then obtain e where "midi_file s' = midi_file s @ [e]" "nonneg_note e" "E_ON s' = E_ON s"
      by (auto simp add: controller_def bind_err_def getitem_def quarter_def split: if_splits)
    with pend ok show ?thesis by simp
  qed
qed

lemma handle_groups_keeps_order:
  assumes bpm: "0 < bpm"
  shows "handle_groups bpm T_elapsed data as (high, low0, N, s) = Inr s' \<Longrightarrow>
     packet_stamps N (T_cycle0 s) T_elapsed
       (clocks high low0 (map (\<lambda>a. uint (data ! a AND 0x7f)) as)) = (c', ts) \<Longrightarrow>
     sorted (ts @ fut) \<Longrightarrow>
     \<forall>ev\<in>set (E_ON s). \<forall>t\<in>set (ts @ fut). fst ev \<le> t \<Longrightarrow>
     list_all nonneg_note (midi_file s) \<Longrightarrow>
     T_cycle0 s' = c' \<and> list_all nonneg_note (midi_file s')
       \<and> (\<forall>ev\<in>set (E_ON s'). \<forall>t\<in>set fut. fst ev \<le> t)"
proof (induction as arbitrary: high low0 N s ts)
  case Nil
  then show ?case by simp
next
  case (Cons a as)
  let ?low = "uint (data ! a AND 0x7f)"
  obtain high' p where cs: "clock_step high low0 ?low = (high', p)" by fastforce
  obtain N' c1 ev lg where u: "unwrap N (T_cycle0 s) T_elapsed p = (N', c1, ev, lg)"
    by (metis prod_cases4)
  let ?s1 = "s\<lparr>T_cycle0 := c1, logged := logged s @ lg\<rparr>"
  from Cons.prems(1) obtain s2 where
    h: "handle_event bpm data a ev ?s1 = Inr s2"
    and g: "handle_groups bpm T_elapsed data as (high', ?low, N', s2) = Inr s'"
    using cs u
    by (auto simp add: handle_group_def bind_err_def getitem_def Let_def
        split: if_splits sum.splits)
  from handle_event_epoch [OF h] have c1: "T_cycle0 s2 = c1" by simp
  obtain c2 ts' where ps: "packet_stamps N' c1 T_elapsed
      (clocks high' ?low (map (\<lambda>a. uint (data ! a AND 0x7f)) as)) = (c2, ts')"
    by fastforce
  from Cons.prems(2) cs u ps have ts: "ts = ev # ts'" and c2: "c2 = c'" by simp_all
  from Cons.prems(4) ts have "\<forall>e\<in>set (E_ON ?s1). fst e \<le> ev" by simp
  moreover from Cons.prems(5) have "list_all nonneg_note (midi_file ?s1)" by simp
  ultimately have s2: "list_all nonneg_note (midi_file s2)" "\<forall>e\<in>set (E_ON s2). fst e \<le> ev"
    using handle_event_keeps_order [OF bpm h] by simp_all
  from Cons.prems(3) ts have srt: "sorted (ts' @ fut)" "\<forall>t\<in>set (ts' @ fut). ev \<le> t"
    by simp_all
  from s2(2) srt(2) have pend2: "\<forall>e\<in>set (E_ON s2). \<forall>t\<in>set (ts' @ fut). fst e \<le> t"
    by (meson order_trans)
  from ps c1 c2 have ps2: "packet_stamps N' (T_cycle0 s2) T_elapsed
      (clocks high' ?low (map (\<lambda>a. uint (data ! a AND 0x7f)) as)) = (c', ts')"
    by simp
  show ?case
    by (rule Cons.IH [OF g ps2 srt(1) pend2 s2(1)])
qed

lemma process_packet_keeps_order:
  assumes bpm: "0 < bpm" and p: "process_packet bpm T_elapsed data s = Inr s'"
    and len: "(int (length data) - 1) AND 0x03 = 0"
    and ps: "packet_stamps 0 (T_cycle0 s) T_elapsed (packet_clocks data) = (c', ts)"
    and srt: "sorted (ts @ fut)"
    and pend: "\<forall>ev\<in>set (E_ON s). \<forall>t\<in>set (ts @ fut). fst ev \<le> t"
    and ok: "list_all nonneg_note (midi_file s)"
  shows "T_cycle0 s' = c' \<and> list_all nonneg_note (midi_file s')
       \<and> (\<forall>ev\<in>set (E_ON s'). \<forall>t\<in>set fut. fst ev \<le> t)"
proof -
  let ?s0 = "s\<lparr>logged := logged s @ [Received T_elapsed data]\<rparr>"
  from p len have g: "handle_groups bpm T_elapsed data (range4 1 (length data - 1))
      (uint (data ! 0 AND 0x3f), uint (data ! 1 AND 0x7f), 0, ?s0) = Inr s'"
    by (auto simp add: process_packet_def bind_err_def getitem_def Let_def split: if_splits)
  from ps have ps': "packet_stamps 0 (T_cycle0 ?s0) T_elapsed
      (clocks (uint (data ! 0 AND 0x3f)) (uint (data ! 1 AND 0x7f))
         (map (\<lambda>a. uint (data ! a AND 0x7f)) (range4 1 (length data - 1)))) = (c', ts)"
    by (simp add: packet_clocks_def)
  from pend have pend': "\<forall>ev\<in>set (E_ON ?s0). \<forall>t\<in>set (ts @ fut). fst ev \<le> t" by simp
  from ok have ok': "list_all nonneg_note (midi_file ?s0)" by simp
  from handle_groups_keeps_order [OF bpm g ps' srt pend' ok'] show ?thesis .
qed

lemma consumer_loop_keeps_order:
  assumes bpm: "0 < bpm"
  shows "consumer_loop bpm writeFile queue s = Inr s' \<Longrightarrow>
     sorted (queue_stamps (T_cycle0 s) queue) \<Longrightarrow>
     \<forall>ev\<in>set (E_ON s). \<forall>t\<in>set (queue_stamps (T_cycle0 s) queue). fst ev \<le> t \<Longrightarrow>
     list_all nonneg_note (midi_file s) \<Longrightarrow>
     list_all nonneg_note (midi_file s')"
proof (induction queue arbitrary: s)
  case Nil
  then show ?case by simp
next
  case (Cons msg queue)
  obtain T_elapsed m where msg: "msg = (T_elapsed, m)" by (cases msg)
  show ?case
  proof (cases m)
    case None
    with Cons.prems(1,4) msg show ?thesis
      by (auto simp add: finish_def Let_def split: option.splits)
  next
    case (Some data)
    from Cons.prems(1) msg Some obtain s1 where
      p: "process_packet bpm T_elapsed data s = Inr s1"
      and rest: "consumer_loop bpm writeFile queue s1 = Inr s'"
      by (auto simp add: bind_err_def split: sum.splits)
    show ?thesis
    proof (cases "(int (length data) - 1) AND 0x03 = 0")
      case False
      with p have s1: "T_cycle0 s1 = T_cycle0 s" "E_ON s1 = E_ON s" "midi_file s1 = midi_file s"
        by (auto simp add: process_packet_def)
      from Cons.prems(2-4) msg Some False s1
      have "sorted (queue_stamps (T_cycle0 s1) queue)"
        "\<forall>ev\<in>set (E_ON s1). \<forall>t\<in>set (queue_stamps (T_cycle0 s1) queue). fst ev \<le> t"
        "list_all nonneg_note (midi_file s1)"
        by simp_all
      then show ?thesis by (rule Cons.IH [OF rest])
    next
      case True
      obtain c' ts where
        ps: "packet_stamps 0 (T_cycle0 s) T_elapsed (packet_clocks data) = (c', ts)"
        by fastforce
      with True msg Some have qs: "queue_stamps (T_cycle0 s) (msg # queue)
          = ts @ queue_stamps c' queue"
        by simp
      from Cons.prems(2,3) qs have srt: "sorted (ts @ queue_stamps c' queue)"
        and pend: "\<forall>ev\<in>set (E_ON s). \<forall>t\<in>set (ts @ queue_stamps c' queue). fst ev \<le> t"
        by simp_all
      from process_packet_keeps_order [OF bpm p True ps srt pend Cons.prems(4)]
      have s1: "T_cycle0 s1 = c'" "list_all nonneg_note (midi_file s1)"
        "\<forall>ev\<in>set (E_ON s1). \<forall>t\<in>set (queue_stamps c' queue). fst ev \<le> t"
        by simp_all
      from srt have "sorted (queue_stamps c' queue)"
        by (simp add: sorted_append)
      with s1 have "sorted (queue_stamps (T_cycle0 s1) queue)"
        "\<forall>ev\<in>set (E_ON s1). \<forall>t\<in>set (queue_stamps (T_cycle0 s1) queue). fst ev \<le> t"
        by simp_all
      then show ?thesis using s1(2) by (rule Cons.IH [OF rest])
    qed
  qed
qed

text \<open>
  C4, amended. With a positive tempo, on every queue on which the event times are
  non-decreasing in the order of the sub-events, every note in the timeline has a duration
  that is not negative, in whatever state the consumer is without an exception: waiting for
  the next message, or done with the file written. Every prefix of such a queue is such a
  queue, so this holds for the timeline after every message.
\<close>

theorem timeline_durations_nonneg:
  assumes "0 < bpm" and "sorted (queue_stamps 0 queue)"
    and "run_queue_consumer bpm file_name writeFile queue = Inr s'"
  shows "\<forall>tr ch p t d v. Note tr ch p t d v \<in> set (midi_file s') \<longrightarrow> 0 \<le> d"
proof -
  let ?s = "init_state bpm file_name"
  have "list_all nonneg_note (midi_file s')"
  proof (rule consumer_loop_keeps_order [OF assms(1)])
    show "consumer_loop bpm writeFile queue ?s = Inr s'"
      using assms(3) by (simp add: run_queue_consumer_def)
    show "sorted (queue_stamps (T_cycle0 ?s) queue)"
      using assms(2) by (simp add: init_state_def)
    show "\<forall>ev\<in>set (E_ON ?s). \<forall>t\<in>set (queue_stamps (T_cycle0 ?s) queue). fst ev \<le> t"
      by (simp add: init_state_def)
    show "list_all nonneg_note (midi_file ?s)"
      by (simp add: init_state_def)
  qed
  then have "\<forall>e\<in>set (midi_file s'). nonneg_note e" by (simp add: list_all_iff)
  then show ?thesis by fastforce
qed

theorem timeline_durations_nonneg_witness:
  "(0::int) < 120
   \<and> sorted (queue_stamps 0
        [(10000, Some [0x80, 0x80, 0x90, 60, 100]),
         (10500, Some [0x83, 0xF4, 0x80, 60, 0]),
         (11000, None)])
   \<and> run_queue_consumer 120 ''Track1'' Map.empty
        [(10000, Some [0x80, 0x80, 0x90, 60, 100]),
         (10500, Some [0x83, 0xF4, 0x80, 60, 0]),
         (11000, None)]
      = Inr \<lparr>T_cycle0 = 10000, E_ON = [],
          midi_file = [TrackName 0 0 ''Track1'', Tempo 0 0 120, Note 0 0 60 20 1 100],
          midi_out = [ [0x90, 60, 100], [0x80, 60, 0] ], port_open = False,
          logged = [Received 10000 [0x80, 0x80, 0x90, 60, 100],
                    Received 10500 [0x83, 0xF4, 0x80, 60, 0], Disconnection],
          written = Some [TrackName 0 0 ''Track1'', Tempo 0 0 120, Note 0 0 60 20 1 100]\<rparr>
   \<and> list_all nonneg_note [TrackName 0 0 ''Track1'', Tempo 0 0 120, Note 0 0 60 20 1 100]"
proof -
  have b: "(0::int) < 120" by simp
  have srt: "sorted (queue_stamps 0
        [(10000, Some [0x80, 0x80, 0x90, 60, 100]),
         (10500, Some [0x83, 0xF4, 0x80, 60, 0]),
         (11000, None)])"
    by (simp add: packet_clocks_def clock_step_def range4.simps unwrap_def floordiv_def pymod_def)
  have run: "run_queue_consumer 120 ''Track1'' Map.empty
        [(10000, Some [0x80, 0x80, 0x90, 60, 100]),
         (10500, Some [0x83, 0xF4, 0x80, 60, 0]),
         (11000, None)]
      = Inr \<lparr>T_cycle0 = 10000, E_ON = [],
          midi_file = [TrackName 0 0 ''Track1'', Tempo 0 0 120, Note 0 0 60 20 1 100],
          midi_out = [ [0x90, 60, 100], [0x80, 60, 0] ], port_open = False,
          logged = [Received 10000 [0x80, 0x80, 0x90, 60, 100],
                    Received 10500 [0x83, 0xF4, 0x80, 60, 0], Disconnection],
          written = Some [TrackName 0 0 ''Track1'', Tempo 0 0 120, Note 0 0 60 20 1 100]\<rparr>"
    by (simp add: run_defs)
  from timeline_durations_nonneg [OF b srt run] srt run show ?thesis
    by simp
qed

end
